theory Spec2Isabelle
  imports Main
begin

section \<open>Strings of the source language\<close>

text \<open>
  A Python \<^verbatim>\<open>str\<close> is a sequence of Unicode code points, and every length in
  \<^verbatim>\<open>outlook_mapi.py\<close> (the bound \<^verbatim>\<open>{3,40}\<close>, \<^verbatim>\<open>len(body_text) < 5\<close>) counts code
  points. A string is therefore a list of code points, written as natural numbers;
  \<open>str_of\<close> turns an ASCII literal into such a list.
\<close>

type_synonym str = "nat list"

definition str_of :: "string \<Rightarrow> str" where
  "str_of cs = map of_char cs"

text \<open>
  The class \<^verbatim>\<open>\s\<close> of a \<^verbatim>\<open>str\<close> pattern and the characters removed by
  \<^verbatim>\<open>str.strip()\<close> are the same set, the Unicode white space of the interpreter.
\<close>

definition isspace :: "nat \<Rightarrow> bool" where
  "isspace c = ((9 \<le> c \<and> c \<le> 13) \<or> (28 \<le> c \<and> c \<le> 32) \<or> c = 133 \<or> c = 160
      \<or> c = 5760 \<or> (8192 \<le> c \<and> c \<le> 8202) \<or> c = 8232 \<or> c = 8233 \<or> c = 8239
      \<or> c = 8287 \<or> c = 12288)"

text \<open>
  The class \<^verbatim>\<open>\d\<close> of a \<^verbatim>\<open>str\<close> pattern compiled without \<^verbatim>\<open>re.ASCII\<close> is the
  Unicode category Nd (decimal digits). \<open>Nd_ranges\<close> lists the blocks of that category
  beyond ASCII, as of Unicode 14.0.
\<close>

definition Nd_ranges :: "(nat \<times> nat) list" where
  "Nd_ranges =
    [(1632, 1641), (1776, 1785), (1984, 1993), (2406, 2415), (2534, 2543), (2662, 2671),
     (2790, 2799), (2918, 2927), (3046, 3055), (3174, 3183), (3302, 3311), (3430, 3439),
     (3558, 3567), (3664, 3673), (3792, 3801), (3872, 3881), (4160, 4169), (4240, 4249),
     (6112, 6121), (6160, 6169), (6470, 6479), (6608, 6617), (6784, 6793), (6800, 6809),
     (6992, 7001), (7088, 7097), (7232, 7241), (7248, 7257), (42528, 42537), (43216, 43225),
     (43264, 43273), (43472, 43481), (43504, 43513), (43600, 43609), (44016, 44025),
     (65296, 65305), (66720, 66729), (68912, 68921), (69734, 69743), (69872, 69881),
     (69942, 69951), (70096, 70105), (70384, 70393), (70736, 70745), (70864, 70873),
     (71248, 71257), (71360, 71369), (71472, 71481), (71904, 71913), (72016, 72025),
     (72784, 72793), (73040, 73049), (73120, 73129), (92768, 92777), (92864, 92873),
     (93008, 93017), (120782, 120831), (123200, 123209), (123632, 123641),
     (125264, 125273), (130032, 130041)]"

definition ascii_digit :: "nat \<Rightarrow> bool" where
  "ascii_digit c = (48 \<le> c \<and> c \<le> 57)"

definition isdecimal :: "nat \<Rightarrow> bool" where
  "isdecimal c = (if c < 128 then ascii_digit c
                  else list_ex (\<lambda>(lo, hi). lo \<le> c \<and> c \<le> hi) Nd_ranges)"

definition ascii_upper :: "nat \<Rightarrow> bool" where
  "ascii_upper c = (65 \<le> c \<and> c \<le> 90)"

definition ascii_lower :: "nat \<Rightarrow> nat" where
  "ascii_lower c = (if ascii_upper c then c + 32 else c)"

text \<open>
  \<^verbatim>\<open>str.lower()\<close>. On an ASCII string it maps \<^verbatim>\<open>A-Z\<close> to \<^verbatim>\<open>a-z\<close>. On any other
  string it follows the case tables of the interpreter, which are no part of this
  repository: they are the parameter \<open>ul\<close>, about which nothing is assumed.
\<close>

definition lower :: "(str \<Rightarrow> str) \<Rightarrow> str \<Rightarrow> str" where
  "lower ul s = (if list_all (\<lambda>c. c < 128) s then map ascii_lower s else ul s)"

text \<open>\<^verbatim>\<open>s.startswith(p)\<close> and the substring test \<^verbatim>\<open>p in s\<close>.\<close>

fun startswith :: "str \<Rightarrow> str \<Rightarrow> bool" where
  "startswith s [] = True"
| "startswith [] (p # ps) = False"
| "startswith (c # cs) (p # ps) = (c = p \<and> startswith cs ps)"

fun contains :: "str \<Rightarrow> str \<Rightarrow> bool" where
  "contains [] p = (p = [])"
| "contains (c # cs) p = (startswith (c # cs) p \<or> contains cs p)"

text \<open>\<^verbatim>\<open>s.strip(chars)\<close> and \<^verbatim>\<open>s.strip()\<close>: the left end first, then the right end.\<close>

definition strip_chars :: "(nat \<Rightarrow> bool) \<Rightarrow> str \<Rightarrow> str" where
  "strip_chars p s = rev (dropWhile p (rev (dropWhile p s)))"

definition strip :: "str \<Rightarrow> str" where
  "strip s = strip_chars isspace s"

text \<open>\<^verbatim>\<open>x or ""\<close> for a value that is a string or \<^verbatim>\<open>None\<close>.\<close>

definition or_empty :: "str option \<Rightarrow> str" where
  "or_empty x = (case x of None \<Rightarrow> [] | Some s \<Rightarrow> if s = [] then [] else s)"

section \<open>Regular expressions\<close>

text \<open>
  The fragment of \<^verbatim>\<open>re\<close> that the patterns of the module use: a character class, greedy
  and lazy bounded repetition of a class, an optional item, sequence, alternative,
  \<^verbatim>\<open>$\<close> under \<^verbatim>\<open>re.MULTILINE\<close>, a positive lookahead and a named group.

  \<open>rmatch r (s, g)\<close> matches \<open>r\<close> at the front of the remaining text \<open>s\<close> and returns
  every way to do so, as the text left over and the groups bound, in the order in
  which the backtracking matcher tries them. The matcher's answer is the head of
  that list. None of the patterns looks behind the current position, so the
  remaining text is all a match depends on.
\<close>

type_synonym groups = "string \<rightharpoonup> str"
type_synonym mstate = "str \<times> groups"

datatype regex =
    Cls "nat \<Rightarrow> bool"
  | Rep "nat \<Rightarrow> bool" nat "nat option"
  | RepLazy "nat \<Rightarrow> bool" nat "nat option"
  | Opt regex
  | Cat regex regex
  | Alt regex regex
  | Eol
  | Ahead regex
  | Group string regex

text \<open>
  \<open>splits p s\<close>: every split of \<open>s\<close> into a front of characters of the class \<open>p\<close> and
  the rest, the shortest front first.
\<close>

fun splits :: "(nat \<Rightarrow> bool) \<Rightarrow> str \<Rightarrow> (str \<times> str) list" where
  "splits p [] = [([], [])]"
| "splits p (c # cs) =
     (if p c then ([], c # cs) # map (\<lambda>(a, b). (c # a, b)) (splits p cs)
      else [([], c # cs)])"

definition within :: "nat \<Rightarrow> nat option \<Rightarrow> nat \<Rightarrow> bool" where
  "within lo hi n = (lo \<le> n \<and> (case hi of None \<Rightarrow> True | Some h \<Rightarrow> n \<le> h))"

definition consumed :: "str \<Rightarrow> str \<Rightarrow> str" where
  "consumed s rest = take (length s - length rest) s"

fun rmatch :: "regex \<Rightarrow> mstate \<Rightarrow> mstate list" where
  "rmatch (Cls p) (s, g) = (case s of [] \<Rightarrow> [] | c # cs \<Rightarrow> if p c then [(cs, g)] else [])"
| "rmatch (Rep p lo hi) (s, g) =
     map (\<lambda>(a, b). (b, g)) (rev (filter (\<lambda>(a, b). within lo hi (length a)) (splits p s)))"
| "rmatch (RepLazy p lo hi) (s, g) =
     map (\<lambda>(a, b). (b, g)) (filter (\<lambda>(a, b). within lo hi (length a)) (splits p s))"
| "rmatch (Opt r) st = rmatch r st @ [st]"
| "rmatch (Cat r1 r2) st = concat (map (rmatch r2) (rmatch r1 st))"
| "rmatch (Alt r1 r2) st = rmatch r1 st @ rmatch r2 st"
| "rmatch Eol (s, g) = (case s of [] \<Rightarrow> [(s, g)] | c # cs \<Rightarrow> if c = 10 then [(s, g)] else [])"
| "rmatch (Ahead r) (s, g) =
     (case rmatch r (s, g) of [] \<Rightarrow> [] | (s', g') # _ \<Rightarrow> [(s, g')])"
| "rmatch (Group n r) (s, g) =
     map (\<lambda>(s', g'). (s', g'(n \<mapsto> consumed s s'))) (rmatch r (s, g))"

text \<open>
  A match object: the text matched (\<^verbatim>\<open>m.group(0)\<close>), the text after the match
  (\<^verbatim>\<open>m.string[m.end():]\<close>) and the groups.
\<close>

record match =
  m_whole :: str
  m_rest :: str
  m_groups :: groups

definition match_prefix :: "regex \<Rightarrow> str \<Rightarrow> match option" where
  "match_prefix r s = (case rmatch r (s, Map.empty) of
       [] \<Rightarrow> None
     | (s', g) # _ \<Rightarrow> Some \<lparr>m_whole = consumed s s', m_rest = s', m_groups = g\<rparr>)"

text \<open>
  The scan behind \<^verbatim>\<open>finditer\<close> and \<^verbatim>\<open>re.sub\<close>: try a match at the current position;
  after a match go on behind it, otherwise step over one character. Every pattern
  of the module consumes a character, so a match is never empty; the branch for an
  empty match keeps the scan total by stepping over one character.
\<close>

datatype piece = Skipped nat | Matched match

function scan :: "regex \<Rightarrow> str \<Rightarrow> piece list" where
  "scan r s =
     (case match_prefix r s of
        None \<Rightarrow> (case s of [] \<Rightarrow> [] | c # cs \<Rightarrow> Skipped c # scan r cs)
      | Some m \<Rightarrow> Matched m #
          (if length (m_rest m) < length s then scan r (m_rest m)
           else case s of [] \<Rightarrow> [] | c # cs \<Rightarrow> Skipped c # scan r cs))"
  by pat_completeness auto
termination
  by (relation "measure (\<lambda>(r, s). length s)") auto

definition finditer :: "regex \<Rightarrow> str \<Rightarrow> match list" where
  "finditer r s =
     concat (map (\<lambda>p. case p of Skipped c \<Rightarrow> [] | Matched m \<Rightarrow> [m]) (scan r s))"

definition sub :: "regex \<Rightarrow> str \<Rightarrow> str \<Rightarrow> str" where
  "sub r repl s =
     concat (map (\<lambda>p. case p of Skipped c \<Rightarrow> [c] | Matched m \<Rightarrow> repl) (scan r s))"

text \<open>
  \<^verbatim>\<open>m.group(name)\<close>. A group that took no part in the match has no text; every group
  of the one pattern with groups, \<open>TRIPLET_REGEX\<close>, takes part in every match of it.
\<close>

definition group :: "match \<Rightarrow> string \<Rightarrow> str" where
  "group m n = (case m_groups m n of None \<Rightarrow> [] | Some v \<Rightarrow> v)"

definition lit :: "nat \<Rightarrow> regex" where
  "lit k = Cls (\<lambda>c. c = k)"

text \<open>A letter under \<^verbatim>\<open>(?i)\<close>: \<open>k\<close> is the code point of the lower-case ASCII letter.\<close>

definition lit_i :: "nat \<Rightarrow> regex" where
  "lit_i k = Cls (\<lambda>c. c = k \<or> c + 32 = k)"

section \<open>Subject keyword and phrase matching\<close>

definition DEFAULT_SUBJECT_KEYWORDS :: "str list" where
  "DEFAULT_SUBJECT_KEYWORDS = [str_of ''esker'', str_of ''vendor'', str_of ''update'']"

definition DEFAULT_SUBJECT_PHRASES :: "str list" where
  "DEFAULT_SUBJECT_PHRASES = [str_of ''esker vendor update'', str_of ''esker vendor'']"

fun phrase_loop :: "(str \<Rightarrow> str) \<Rightarrow> str \<Rightarrow> str list \<Rightarrow> bool" where
  "phrase_loop ul s [] = False"
| "phrase_loop ul s (ph # phs) =
     (if contains s (lower ul ph) then True else phrase_loop ul s phs)"

definition subject_matches :: "(str \<Rightarrow> str) \<Rightarrow> str option \<Rightarrow> str list \<Rightarrow> str list \<Rightarrow> int \<Rightarrow> bool" where
  "subject_matches ul subject keywords phrases min_keyword_hits =
     (let s = lower ul (or_empty subject) in
      if phrase_loop ul s phrases then True
      else let hits = length (filter (\<lambda>kw. contains s (lower ul kw)) keywords)
           in min_keyword_hits \<le> int hits)"

section \<open>Body text extraction and parsing\<close>

definition TRIPLET_REGEX :: regex where
  "TRIPLET_REGEX =
     Cat (Group ''company'' (Cat (Rep ascii_upper 2 (Some 2)) (Rep isdecimal 2 (Some 2))))
    (Cat (Rep isspace 1 None)
    (Cat (Group ''vendor'' (Rep (\<lambda>c. \<not> isspace c) 3 (Some 40)))
    (Cat (Rep isspace 1 None)
    (Cat (Group ''name'' (RepLazy (\<lambda>c. c \<noteq> 13 \<and> c \<noteq> 10) 1 None))
         (Ahead (Alt Eol (Cat (Opt (lit 13)) (lit 10))))))))"

definition BR_REGEX :: regex where
  "BR_REGEX =
     Cat (lit 60) (Cat (Rep isspace 0 None) (Cat (lit_i 98) (Cat (lit_i 114)
    (Cat (Rep isspace 0 None) (Cat (Opt (lit 47)) (Cat (Rep isspace 0 None) (lit 62)))))))"

definition P_CLOSE_REGEX :: regex where
  "P_CLOSE_REGEX =
     Cat (lit 60) (Cat (lit 47) (Cat (Rep isspace 0 None) (Cat (lit_i 112)
    (Cat (Rep isspace 0 None) (lit 62)))))"

definition P_OPEN_REGEX :: regex where
  "P_OPEN_REGEX =
     Cat (lit 60) (Cat (Rep isspace 0 None) (Cat (lit_i 112)
    (Cat (Rep (\<lambda>c. c \<noteq> 62) 0 None) (lit 62))))"

definition TAG_REGEX :: regex where
  "TAG_REGEX = Cat (lit 60) (Cat (Rep (\<lambda>c. c \<noteq> 62) 1 None) (lit 62))"

definition BLANKS_REGEX :: regex where
  "BLANKS_REGEX = Rep (\<lambda>c. c = 32 \<or> c = 9) 1 None"

definition SPACES_REGEX :: regex where
  "SPACES_REGEX = Rep isspace 1 None"

definition html_to_text :: "str option \<Rightarrow> str" where
  "html_to_text html =
     (case html of
        None \<Rightarrow> []
      | Some h \<Rightarrow>
          if h = [] then []
          else let txt = sub BR_REGEX [10] h;
                   txt = sub P_CLOSE_REGEX [10] txt;
                   txt = sub P_OPEN_REGEX [] txt;
                   txt = sub TAG_REGEX [32] txt;
                   txt = strip (sub BLANKS_REGEX [32] txt)
               in txt)"

definition sep_char :: "nat \<Rightarrow> bool" where
  "sep_char c = (c = 32 \<or> c = 45 \<or> c = 124)"

definition row_of_match :: "match \<Rightarrow> str \<times> str \<times> str" where
  "row_of_match m =
     (let company = strip (group m ''company'');
          vendor = strip (group m ''vendor'');
          name = strip (group m ''name'');
          name = strip_chars sep_char (sub SPACES_REGEX [32] name)
      in (company, vendor, name))"

definition extract_triplets_from_text :: "str option \<Rightarrow> (str \<times> str \<times> str) list" where
  "extract_triplets_from_text txt = map row_of_match (finditer TRIPLET_REGEX (or_empty txt))"

text \<open>
  A mail item as \<open>extract_rows_from_email\<close> and the subject filter read it: the three
  attributes, each of which may be missing or \<^verbatim>\<open>None\<close>.
\<close>

record message =
  Subject :: "str option"
  Body :: "str option"
  HTMLBody :: "str option"

definition extract_rows_from_email :: "message \<Rightarrow> (str \<times> str \<times> str) list" where
  "extract_rows_from_email msg =
     (let body_text = strip (or_empty (Body msg));
          body_text = (if body_text = [] \<or> length body_text < 5
                       then html_to_text (Some (or_empty (HTMLBody msg)))
                       else body_text)
      in extract_triplets_from_text (Some body_text))"

section \<open>The result table\<close>

text \<open>
  A \<^verbatim>\<open>pandas.DataFrame\<close> of string triplets: the column labels, the row labels (the
  index) and the rows.
\<close>

record dataframe =
  df_columns :: "string list"
  df_index :: "nat list"
  df_data :: "(str \<times> str \<times> str) list"

definition DataFrame :: "(str \<times> str \<times> str) list \<Rightarrow> string list \<Rightarrow> dataframe" where
  "DataFrame rows cols = \<lparr>df_columns = cols, df_index = [0..<length rows], df_data = rows\<rparr>"

definition df_empty :: "dataframe \<Rightarrow> bool" where
  "df_empty df = (df_index df = [] \<or> df_columns df = [])"

text \<open>
  \<^verbatim>\<open>df.duplicated()\<close> with the default \<^verbatim>\<open>keep='first'\<close>: a row is marked when an equal
  row stands before it.
\<close>

fun duplicated :: "'a list \<Rightarrow> 'a list \<Rightarrow> bool list" where
  "duplicated seen [] = []"
| "duplicated seen (r # rs) = (r \<in> set seen) # duplicated (r # seen) rs"

definition select :: "bool list \<Rightarrow> 'a list \<Rightarrow> 'a list" where
  "select flags xs = map snd (filter fst (zip flags xs))"

definition drop_duplicates :: "dataframe \<Rightarrow> dataframe" where
  "drop_duplicates df =
     (let keep = map Not (duplicated [] (df_data df))
      in df\<lparr>df_index := select keep (df_index df), df_data := select keep (df_data df)\<rparr>)"

definition reset_index_drop :: "dataframe \<Rightarrow> dataframe" where
  "reset_index_drop df = df\<lparr>df_index := [0..<length (df_data df)]\<rparr>"

definition build_dataframe :: "(str \<times> str \<times> str) list \<Rightarrow> dataframe" where
  "build_dataframe rows =
     (let df = DataFrame rows [''company_code'', ''vendor_number'', ''name'']
      in if \<not> df_empty df then reset_index_drop (drop_duplicates df) else df)"

section \<open>The module's globals and the entry point\<close>

text \<open>
  The two default lists are objects; the global names \<^verbatim>\<open>DEFAULT_SUBJECT_KEYWORDS\<close> and
  \<^verbatim>\<open>DEFAULT_SUBJECT_PHRASES\<close> are bound to them, and so are the default values of
  the parameters of \<^verbatim>\<open>subject_matches\<close>, which Python evaluates once, when the
  \<^verbatim>\<open>def\<close> statement runs. The state of the module is a store of list objects, the two
  global bindings, and the defaults of \<^verbatim>\<open>subject_matches\<close>.
\<close>

record module_state =
  store :: "nat \<Rightarrow> str list"
  fresh :: nat
  g_keywords :: nat
  g_phrases :: nat
  d_keywords :: nat
  d_phrases :: nat
  d_min_keyword_hits :: int

definition module_init :: module_state where
  "module_init =
     \<lparr>store = (\<lambda>a. [])(0 := DEFAULT_SUBJECT_KEYWORDS, 1 := DEFAULT_SUBJECT_PHRASES),
      fresh = 2, g_keywords = 0, g_phrases = 1,
      d_keywords = 0, d_phrases = 1, d_min_keyword_hits = 1\<rparr>"

text \<open>
  A call of \<^verbatim>\<open>subject_matches\<close> in a state of the module: an argument that the call
  leaves out takes the default bound at definition time.
\<close>

definition call_subject_matches ::
  "(str \<Rightarrow> str) \<Rightarrow> module_state \<Rightarrow> str option \<Rightarrow> str list option \<Rightarrow> str list option \<Rightarrow> int option \<Rightarrow> bool" where
  "call_subject_matches ul st subject keywords phrases min_keyword_hits =
     subject_matches ul subject
       (case keywords of None \<Rightarrow> store st (d_keywords st) | Some k \<Rightarrow> k)
       (case phrases of None \<Rightarrow> store st (d_phrases st) | Some p \<Rightarrow> p)
       (case min_keyword_hits of None \<Rightarrow> d_min_keyword_hits st | Some n \<Rightarrow> n)"

text \<open>
  The subject filter of \<open>find_matching_emails_inbox\<close>, over the items of the inbox that
  lie in the time window, in the order of the enumeration.
\<close>

definition find_matching_emails_inbox ::
  "(str \<Rightarrow> str) \<Rightarrow> module_state \<Rightarrow> message list \<Rightarrow> int \<Rightarrow> message list" where
  "find_matching_emails_inbox ul st inbox min_keyword_hits =
     filter (\<lambda>msg. call_subject_matches ul st (Some (or_empty (Subject msg))) None None
                     (Some min_keyword_hits)) inbox"

text \<open>\<^verbatim>\<open>NAME = list(xs)\<close> for a global name: a new object, and the name bound to it.\<close>

definition rebind_keywords :: "str list \<Rightarrow> module_state \<Rightarrow> module_state" where
  "rebind_keywords xs st =
     st\<lparr>store := (store st)(fresh st := xs), g_keywords := fresh st, fresh := Suc (fresh st)\<rparr>"

definition rebind_phrases :: "str list \<Rightarrow> module_state \<Rightarrow> module_state" where
  "rebind_phrases xs st =
     st\<lparr>store := (store st)(fresh st := xs), g_phrases := fresh st, fresh := Suc (fresh st)\<rparr>"

definition get_esker_vendor_updates_df ::
  "(str \<Rightarrow> str) \<Rightarrow> module_state \<Rightarrow> int \<Rightarrow> str list \<Rightarrow> str list \<Rightarrow> message list
     \<Rightarrow> dataframe \<times> module_state" where
  "get_esker_vendor_updates_df ul st min_subject_keyword_hits subject_keywords subject_phrases inbox =
     (let st = rebind_keywords subject_keywords st;
          st = rebind_phrases subject_phrases st;
          msgs = find_matching_emails_inbox ul st inbox min_subject_keyword_hits;
          all_rows = concat (map extract_rows_from_email msgs)
      in (build_dataframe all_rows, st))"

text \<open>
  A call of \<open>extract_triplets_from_text\<close> in a state of the module: it reads no global that
  any code of the module rebinds, and binds none.
\<close>

definition call_extract_triplets_from_text ::
  "module_state \<Rightarrow> str option \<Rightarrow> (str \<times> str \<times> str) list \<times> module_state" where
  "call_extract_triplets_from_text st txt = (extract_triplets_from_text txt, st)"

text \<open>The state after a sequence of calls of the entry point.\<close>

record entry_call =
  c_hits :: int
  c_keywords :: "str list"
  c_phrases :: "str list"
  c_inbox :: "message list"

definition after_calls :: "(str \<Rightarrow> str) \<Rightarrow> entry_call list \<Rightarrow> module_state" where
  "after_calls ul cs =
     foldl (\<lambda>st c. snd (get_esker_vendor_updates_df ul st (c_hits c) (c_keywords c)
                          (c_phrases c) (c_inbox c))) module_init cs"

text \<open>
  The defaults of \<open>subject_matches\<close> still refer to the two lists of the module's start.
\<close>

definition defaults_intact :: "module_state \<Rightarrow> bool" where
  "defaults_intact st =
     (d_keywords st = 0 \<and> d_phrases st = 1 \<and> 2 \<le> fresh st \<and>
      store st 0 = DEFAULT_SUBJECT_KEYWORDS \<and> store st 1 = DEFAULT_SUBJECT_PHRASES)"

section \<open>The classifier as the specification words it\<close>

text \<open>
  A phrase found in the lower-cased subject decides at once; otherwise the number of
  distinct keywords found there is compared with the threshold.
\<close>

definition classifier_spec :: "(str \<Rightarrow> str) \<Rightarrow> str option \<Rightarrow> str list \<Rightarrow> str list \<Rightarrow> int \<Rightarrow> bool" where
  "classifier_spec ul subject keywords phrases threshold =
     (let s = lower ul (or_empty subject) in
      list_ex (\<lambda>ph. contains s (lower ul ph)) phrases
      \<or> threshold \<le> int (card (set (filter (\<lambda>kw. contains s (lower ul kw)) keywords))))"

section \<open>Properties of extracted records\<close>

text \<open>
  The text behind a match stands at the end of a line: it is empty, or starts with a
  line feed, or with a carriage return and a line feed.
\<close>

definition at_line_end :: "str \<Rightarrow> bool" where
  "at_line_end r = (r = [] \<or> hd r = 10 \<or> take 2 r = [13, 10])"

text \<open>
  The anatomy of a match of \<open>TRIPLET_REGEX\<close> in front of the remaining text \<open>s'\<close>: the
  company code, white space, the vendor number, white space, the name.
\<close>

definition triplet_shape :: "str \<Rightarrow> str \<Rightarrow> groups \<Rightarrow> bool" where
  "triplet_shape s s' g' = (\<exists>co ws1 ve ws2 na.
      s = co @ ws1 @ ve @ ws2 @ na @ s' \<and>
      g' ''company'' = Some co \<and> g' ''vendor'' = Some ve \<and> g' ''name'' = Some na \<and>
      length co = 4 \<and> (\<forall>c\<in>set (take 2 co). ascii_upper c) \<and> (\<forall>c\<in>set (drop 2 co). isdecimal c) \<and>
      ws1 \<noteq> [] \<and> (\<forall>c\<in>set ws1. isspace c) \<and>
      3 \<le> length ve \<and> length ve \<le> 40 \<and> (\<forall>c\<in>set ve. \<not> isspace c) \<and>
      ws2 \<noteq> [] \<and> (\<forall>c\<in>set ws2. isspace c) \<and>
      na \<noteq> [] \<and> (\<forall>c\<in>set na. c \<noteq> 13 \<and> c \<noteq> 10) \<and>
      at_line_end s')"

text \<open>
  Every white-space character is a plain space, and none is followed by another
  white-space character.
\<close>

fun spaced :: "str \<Rightarrow> bool" where
  "spaced [] = True"
| "spaced [c] = (isspace c \<longrightarrow> c = 32)"
| "spaced (c # d # cs) = ((isspace c \<longrightarrow> c = 32 \<and> \<not> isspace d) \<and> spaced (d # cs))"

text \<open>
  The shape of a company code as the pattern gives it (two letters \<^verbatim>\<open>A-Z\<close>, two decimal
  digits of any script), and as the specification words it (two ASCII digits).
\<close>

definition company_code_ok :: "str \<Rightarrow> bool" where
  "company_code_ok c =
     (length c = 4 \<and> list_all ascii_upper (take 2 c) \<and> list_all isdecimal (drop 2 c))"

definition company_code_ascii :: "str \<Rightarrow> bool" where
  "company_code_ascii c =
     (length c = 4 \<and> list_all ascii_upper (take 2 c) \<and> list_all ascii_digit (drop 2 c))"

definition vendor_number_ok :: "str \<Rightarrow> bool" where
  "vendor_number_ok v = (3 \<le> length v \<and> length v \<le> 40 \<and> list_all (\<lambda>c. \<not> isspace c) v)"

definition name_ok :: "str \<Rightarrow> bool" where
  "name_ok n = (spaced n \<and> (n = [] \<or> (\<not> sep_char (hd n) \<and> \<not> sep_char (last n))))"

definition one_line :: "str \<Rightarrow> bool" where
  "one_line s = list_all (\<lambda>c. c \<noteq> 13 \<and> c \<noteq> 10) s"

section \<open>The matcher\<close>

lemma splits_iff: "(a, b) \<in> set (splits p s) \<longleftrightarrow> s = a @ b \<and> (\<forall>c\<in>set a. p c)"
proof (induction s arbitrary: a b)
  case Nil
  then show ?case by auto
next
  case (Cons x xs)
  show ?case
  proof (cases a)
    case Nil
    then show ?thesis using Cons by auto
  next
    case (Cons y ys)
    then show ?thesis using Cons.IH [of ys b] by auto
  qed
qed

lemma consumed_append: "consumed (a @ b) b = a"
  by (simp add: consumed_def)

lemma rmatch_Rep_iff:
  "(s', g') \<in> set (rmatch (Rep p lo hi) (s, g)) \<longleftrightarrow>
     g' = g \<and> (\<exists>a. s = a @ s' \<and> (\<forall>c\<in>set a. p c) \<and> within lo hi (length a))"
  by (auto simp: splits_iff image_iff)

lemma rmatch_RepLazy_iff:
  "(s', g') \<in> set (rmatch (RepLazy p lo hi) (s, g)) \<longleftrightarrow>
     g' = g \<and> (\<exists>a. s = a @ s' \<and> (\<forall>c\<in>set a. p c) \<and> within lo hi (length a))"
  by (auto simp: splits_iff image_iff)

lemma rmatch_Cat_iff:
  "x \<in> set (rmatch (Cat r1 r2) st) \<longleftrightarrow> (\<exists>y\<in>set (rmatch r1 st). x \<in> set (rmatch r2 y))"
  by auto

lemma rmatch_CatE:
  assumes "(s', g') \<in> set (rmatch (Cat r1 r2) st)"
  obtains t h where "(t, h) \<in> set (rmatch r1 st)" "(s', g') \<in> set (rmatch r2 (t, h))"
  using assms by auto

lemma rmatch_Group_iff:
  "(s', g') \<in> set (rmatch (Group n r) (s, g)) \<longleftrightarrow>
     (\<exists>g''. (s', g'') \<in> set (rmatch r (s, g)) \<and> g' = g''(n \<mapsto> consumed s s'))"
  by (force simp: image_iff)

lemma rmatch_line_end:
  "(s', g') \<in> set (rmatch (Ahead (Alt Eol (Cat (Opt (lit 13)) (lit 10)))) (s, g)) \<Longrightarrow>
     s' = s \<and> g' = g \<and> at_line_end s"
  by (auto simp: lit_def at_line_end_def split: list.splits if_splits)


lemma rmatch_company:
  assumes "(s1, g1) \<in> set (rmatch (Group ''company'' (Cat (Rep ascii_upper 2 (Some 2)) (Rep isdecimal 2 (Some 2)))) (s, g))"
  shows "\<exists>co. s = co @ s1 \<and> g1 = g(''company'' \<mapsto> co) \<and> length co = 4 \<and>
           (\<forall>c\<in>set (take 2 co). ascii_upper c) \<and> (\<forall>c\<in>set (drop 2 co). isdecimal c)"
proof -
  from assms obtain g'' where m: "(s1, g'') \<in> set (rmatch (Cat (Rep ascii_upper 2 (Some 2)) (Rep isdecimal 2 (Some 2))) (s, g))"
    and g1: "g1 = g''(''company'' \<mapsto> consumed s s1)"
    unfolding rmatch_Group_iff by blast
  from m obtain t h where a: "(t, h) \<in> set (rmatch (Rep ascii_upper 2 (Some 2)) (s, g))"
    and b: "(s1, g'') \<in> set (rmatch (Rep isdecimal 2 (Some 2)) (t, h))"
    by (rule rmatch_CatE)
  from a obtain x where x: "h = g" "s = x @ t" "\<forall>c\<in>set x. ascii_upper c" "length x = 2"
    unfolding rmatch_Rep_iff by (auto simp: within_def Suc_le_eq)
  from b obtain y where y: "g'' = h" "t = y @ s1" "\<forall>c\<in>set y. isdecimal c" "length y = 2"
    unfolding rmatch_Rep_iff by (auto simp: within_def Suc_le_eq)
  have "consumed s s1 = x @ y" using x y consumed_append [of "x @ y" s1] by simp
  then show ?thesis using x y g1 by (intro exI [of _ "x @ y"]) simp
qed

lemma rmatch_triplet:
  assumes "(s', g') \<in> set (rmatch TRIPLET_REGEX (s, Map.empty))"
  shows "triplet_shape s s' g'"
proof -
  from assms obtain s1 g1 where 1: "(s1, g1) \<in> set (rmatch (Group ''company'' (Cat (Rep ascii_upper 2 (Some 2)) (Rep isdecimal 2 (Some 2)))) (s, Map.empty))"
    and r1: "(s', g') \<in> set (rmatch (Cat (Rep isspace 1 None)
    (Cat (Group ''vendor'' (Rep (\<lambda>c. \<not> isspace c) 3 (Some 40)))
    (Cat (Rep isspace 1 None)
    (Cat (Group ''name'' (RepLazy (\<lambda>c. c \<noteq> 13 \<and> c \<noteq> 10) 1 None))
         (Ahead (Alt Eol (Cat (Opt (lit 13)) (lit 10)))))))) (s1, g1))"
    unfolding TRIPLET_REGEX_def by (rule rmatch_CatE)
  from rmatch_company [OF 1] obtain co where co: "s = co @ s1" "g1 = [''company'' \<mapsto> co]" "length co = 4"
    "\<forall>c\<in>set (take 2 co). ascii_upper c" "\<forall>c\<in>set (drop 2 co). isdecimal c" by blast
  from r1 obtain s2 g2 where 2: "(s2, g2) \<in> set (rmatch (Rep isspace 1 None) (s1, g1))"
    and r2: "(s', g') \<in> set (rmatch 
    (Cat (Group ''vendor'' (Rep (\<lambda>c. \<not> isspace c) 3 (Some 40)))
    (Cat (Rep isspace 1 None)
    (Cat (Group ''name'' (RepLazy (\<lambda>c. c \<noteq> 13 \<and> c \<noteq> 10) 1 None))
         (Ahead (Alt Eol (Cat (Opt (lit 13)) (lit 10))))))) (s2, g2))"
    by (rule rmatch_CatE)
  from 2 obtain ws1 where ws1: "g2 = g1" "s1 = ws1 @ s2" "\<forall>c\<in>set ws1. isspace c" "ws1 \<noteq> []"
    unfolding rmatch_Rep_iff by (auto simp: within_def Suc_le_eq)
  from r2 obtain s3 g3 where 3: "(s3, g3) \<in> set (rmatch (Group ''vendor'' (Rep (\<lambda>c. \<not> isspace c) 3 (Some 40))) (s2, g2))"
    and r3: "(s', g') \<in> set (rmatch 
    (Cat (Rep isspace 1 None)
    (Cat (Group ''name'' (RepLazy (\<lambda>c. c \<noteq> 13 \<and> c \<noteq> 10) 1 None))
         (Ahead (Alt Eol (Cat (Opt (lit 13)) (lit 10)))))) (s3, g3))"
    by (rule rmatch_CatE)
  from 3 obtain ve where ve: "s2 = ve @ s3" "g3 = g2(''vendor'' \<mapsto> ve)" "\<forall>c\<in>set ve. \<not> isspace c"
      "3 \<le> length ve" "length ve \<le> 40"
    unfolding rmatch_Group_iff rmatch_Rep_iff by (auto simp: within_def consumed_append Suc_le_eq)
  from r3 obtain s4 g4 where 4: "(s4, g4) \<in> set (rmatch (Rep isspace 1 None) (s3, g3))"
    and r4: "(s', g') \<in> set (rmatch 
    (Cat (Group ''name'' (RepLazy (\<lambda>c. c \<noteq> 13 \<and> c \<noteq> 10) 1 None))
         (Ahead (Alt Eol (Cat (Opt (lit 13)) (lit 10))))) (s4, g4))"
    by (rule rmatch_CatE)
  from 4 obtain ws2 where ws2: "g4 = g3" "s3 = ws2 @ s4" "\<forall>c\<in>set ws2. isspace c" "ws2 \<noteq> []"
    unfolding rmatch_Rep_iff by (auto simp: within_def Suc_le_eq)
  from r4 obtain s5 g5 where 5: "(s5, g5) \<in> set (rmatch (Group ''name'' (RepLazy (\<lambda>c. c \<noteq> 13 \<and> c \<noteq> 10) 1 None)) (s4, g4))"
    and r5: "(s', g') \<in> set (rmatch (Ahead (Alt Eol (Cat (Opt (lit 13)) (lit 10)))) (s5, g5))"
    by (rule rmatch_CatE)
  from 5 obtain na where na: "s4 = na @ s5" "g5 = g4(''name'' \<mapsto> na)" "\<forall>c\<in>set na. c \<noteq> 13 \<and> c \<noteq> 10"
      "na \<noteq> []"
    unfolding rmatch_Group_iff rmatch_RepLazy_iff by (auto simp: within_def consumed_append Suc_le_eq)
  from rmatch_line_end [OF r5] have e: "s' = s5" "g' = g5" "at_line_end s5" by auto
  show ?thesis
    unfolding triplet_shape_def
    apply (rule exI [of _ co], rule exI [of _ ws1], rule exI [of _ ve], rule exI [of _ ws2], rule exI [of _ na])
    using co ws1 ve ws2 na e by simp
qed


lemma rmatch_suffix: "(s', g') \<in> set (rmatch r (s, g)) \<Longrightarrow> \<exists>a. s = a @ s'"
proof (induction r arbitrary: s g s' g')
  case (Cls p)
  then show ?case by (auto split: list.splits if_splits)
next
  case (Rep p lo hi)
  then show ?case unfolding rmatch_Rep_iff by blast
next
  case (RepLazy p lo hi)
  then show ?case unfolding rmatch_RepLazy_iff by blast
next
  case (Opt r)
  then show ?case by auto
next
  case (Cat r1 r2)
  from Cat.prems obtain t h where 1: "(t, h) \<in> set (rmatch r1 (s, g))"
    and 2: "(s', g') \<in> set (rmatch r2 (t, h))" by (rule rmatch_CatE)
  from Cat.IH(1) [OF 1] Cat.IH(2) [OF 2] show ?case by auto
next
  case (Alt r1 r2)
  then show ?case by auto
next
  case Eol
  then show ?case by (auto split: list.splits if_splits)
next
  case (Ahead r)
  then show ?case by (auto split: list.splits)
next
  case (Group n r)
  then show ?case unfolding rmatch_Group_iff by blast
qed

lemma match_prefix_SomeD:
  assumes "match_prefix r s = Some m"
  shows "(m_rest m, m_groups m) \<in> set (rmatch r (s, Map.empty))" and "s = m_whole m @ m_rest m"
proof -
  from assms obtain s' g rest where r: "rmatch r (s, Map.empty) = (s', g) # rest"
    and m: "m = \<lparr>m_whole = consumed s s', m_rest = s', m_groups = g\<rparr>"
    by (auto simp: match_prefix_def split: list.splits)
  from r have mem: "(s', g) \<in> set (rmatch r (s, Map.empty))" by simp
  then show "(m_rest m, m_groups m) \<in> set (rmatch r (s, Map.empty))" using m by simp
  from rmatch_suffix [OF mem] obtain a where "s = a @ s'" by blast
  then show "s = m_whole m @ m_rest m" using m by (simp add: consumed_append)
qed

lemma scan_Matched:
  "Matched m \<in> set (scan r s) \<Longrightarrow> \<exists>pre. s = pre @ m_whole m @ m_rest m \<and> match_prefix r (m_whole m @ m_rest m) = Some m"
proof (induction r s rule: scan.induct)
  case (1 r s)
  show ?case
  proof (cases "match_prefix r s")
    case None
    show ?thesis
    proof (cases s)
      case Nil
      with None "1.prems" show ?thesis by (subst (asm) scan.simps) simp
    next
      case (Cons c cs)
      with None "1.prems" have "Matched m \<in> set (scan r cs)" by (subst (asm) scan.simps) simp
      from "1.IH"(1) [OF None Cons this] obtain pre where "cs = pre @ m_whole m @ m_rest m"
        "match_prefix r (m_whole m @ m_rest m) = Some m" by blast
      then show ?thesis using Cons by (intro exI [of _ "c # pre"]) simp
    qed
  next
    case (Some m0)
    note d = match_prefix_SomeD [OF Some]
    show ?thesis
    proof (cases "m = m0")
      case True
      then show ?thesis using d(2) Some by (intro exI [of _ "[]"]) simp
    next
      case False
      show ?thesis
      proof (cases "length (m_rest m0) < length s")
        case True
        with Some False "1.prems" have "Matched m \<in> set (scan r (m_rest m0))"
          by (subst (asm) scan.simps) simp
        from "1.IH"(2) [OF Some True this] obtain pre where "m_rest m0 = pre @ m_whole m @ m_rest m"
          "match_prefix r (m_whole m @ m_rest m) = Some m" by blast
        then show ?thesis using d(2) by (intro exI [of _ "m_whole m0 @ pre"]) simp
      next
        case nl: False
        show ?thesis
        proof (cases s)
          case Nil
          with Some False nl "1.prems" show ?thesis by (subst (asm) scan.simps) simp
        next
          case (Cons c cs)
          with Some False nl "1.prems" have "Matched m \<in> set (scan r cs)"
            by (subst (asm) scan.simps) simp
          from "1.IH"(3) [OF Some nl Cons this] obtain pre where "cs = pre @ m_whole m @ m_rest m"
            "match_prefix r (m_whole m @ m_rest m) = Some m" by blast
          then show ?thesis using Cons by (intro exI [of _ "c # pre"]) simp
        qed
      qed
    qed
  qed
qed

lemma finditer_iff: "m \<in> set (finditer r s) \<longleftrightarrow> Matched m \<in> set (scan r s)"
  by (auto simp: finditer_def split: piece.splits)

lemma finditer_triplet:
  assumes "m \<in> set (finditer TRIPLET_REGEX s)"
  shows "triplet_shape (m_whole m @ m_rest m) (m_rest m) (m_groups m)"
    and "\<exists>pre. s = pre @ m_whole m @ m_rest m"
proof -
  from assms have "Matched m \<in> set (scan TRIPLET_REGEX s)" by (simp add: finditer_iff)
  from scan_Matched [OF this] obtain pre where p: "s = pre @ m_whole m @ m_rest m"
    and mp: "match_prefix TRIPLET_REGEX (m_whole m @ m_rest m) = Some m" by blast
  from p show "\<exists>pre. s = pre @ m_whole m @ m_rest m" by blast
  from match_prefix_SomeD(1) [OF mp] show "triplet_shape (m_whole m @ m_rest m) (m_rest m) (m_groups m)"
    by (rule rmatch_triplet)
qed

section \<open>White space and trimming\<close>

lemma splits_last: "splits p s \<noteq> [] \<and> last (splits p s) = (takeWhile p s, dropWhile p s)"
  by (induction s) (auto simp: last_map)

lemma match_prefix_Rep1:
  "match_prefix (Rep p (Suc 0) None) s =
     (if s \<noteq> [] \<and> p (hd s)
      then Some \<lparr>m_whole = takeWhile p s, m_rest = dropWhile p s, m_groups = Map.empty\<rparr>
      else None)"
proof (cases s)
  case Nil
  then show ?thesis by (simp add: match_prefix_def within_def)
next
  case (Cons c cs)
  show ?thesis
  proof (cases "p c")
    case False
    with Cons show ?thesis by (simp add: match_prefix_def within_def)
  next
    case True
    let ?f = "\<lambda>(a, b). (c # a, b)"
    have f: "filter (\<lambda>(a, b). within (Suc 0) None (length a)) (map ?f (splits p cs)) = map ?f (splits p cs)"
      by (rule filter_True) (auto simp: within_def)
    have ne: "map ?f (splits p cs) \<noteq> []" using splits_last [of p cs] by simp
    have l: "last (map ?f (splits p cs)) = (c # takeWhile p cs, dropWhile p cs)"
      using splits_last [of p cs] by (simp add: last_map)
    have "rev (filter (\<lambda>(a, b). within (Suc 0) None (length a)) (splits p s))
        = rev (map ?f (splits p cs))"
      using Cons True f by (simp add: within_def)
    moreover have "hd (rev (map ?f (splits p cs))) = (c # takeWhile p cs, dropWhile p cs)"
      using l ne by (simp add: hd_rev)
    moreover have "rev (map ?f (splits p cs)) \<noteq> []" using ne by simp
    ultimately obtain rest where
      "rev (filter (\<lambda>(a, b). within (Suc 0) None (length a)) (splits p s))
        = (c # takeWhile p cs, dropWhile p cs) # rest"
      by (metis list.exhaust_sel)
    moreover have "consumed (c # cs) (dropWhile p cs) = c # takeWhile p cs"
      using consumed_append [of "c # takeWhile p cs" "dropWhile p cs"] by simp
    ultimately show ?thesis using Cons True by (simp add: match_prefix_def)
  qed
qed

lemma sub_spaces_Nil: "sub SPACES_REGEX repl [] = []"
  unfolding sub_def SPACES_REGEX_def
  by (subst scan.simps) (simp add: match_prefix_def within_def)

lemma sub_spaces_Cons:
  "sub SPACES_REGEX repl (c # cs) =
     (if isspace c then repl @ sub SPACES_REGEX repl (dropWhile isspace cs)
      else c # sub SPACES_REGEX repl cs)"
proof -
  have le: "length (dropWhile isspace cs) < Suc (length cs)"
    by (simp add: length_dropWhile_le less_Suc_eq_le)
  show ?thesis
    unfolding sub_def SPACES_REGEX_def One_nat_def
    by (subst scan.simps) (simp add: match_prefix_Rep1 le)
qed

lemma spaced_Cons_nonspace: "\<not> isspace c \<Longrightarrow> spaced xs \<Longrightarrow> spaced (c # xs)"
  by (cases xs) auto

lemma sub_spaces_spaced: "spaced (sub SPACES_REGEX [32] s)"
proof (induction "length s" arbitrary: s rule: less_induct)
  case less
  show ?case
  proof (cases s)
    case Nil
    then show ?thesis by (simp add: sub_spaces_Nil)
  next
    case (Cons c cs)
    show ?thesis
    proof (cases "isspace c")
      case False
      have "spaced (sub SPACES_REGEX [32] cs)" using less [of cs] Cons by simp
      then show ?thesis using Cons False by (simp add: sub_spaces_Cons spaced_Cons_nonspace)
    next
      case True
      define t where "t = dropWhile isspace cs"
      have lt: "length t < length s"
        using Cons by (simp add: t_def length_dropWhile_le less_Suc_eq_le)
      have e: "sub SPACES_REGEX [32] s = 32 # sub SPACES_REGEX [32] t"
        using Cons True by (simp add: sub_spaces_Cons t_def)
      show ?thesis
      proof (cases t)
        case Nil
        then show ?thesis using e by (simp add: sub_spaces_Nil)
      next
        case t: (Cons d ds)
        have "\<not> isspace (hd (dropWhile isspace cs))"
          by (rule hd_dropWhile) (use t in \<open>simp add: t_def [symmetric]\<close>)
        then have nd: "\<not> isspace d" using t by (simp add: t_def [symmetric])
        have "spaced (sub SPACES_REGEX [32] t)" using less [OF lt] .
        then have "spaced (d # sub SPACES_REGEX [32] ds)" using t nd by (simp add: sub_spaces_Cons)
        then show ?thesis using e t nd by (simp add: sub_spaces_Cons)
      qed
    qed
  qed
qed

lemma spaced_append: "spaced (xs @ ys) \<Longrightarrow> spaced xs \<and> spaced ys"
proof (induction xs rule: spaced.induct)
  case 1
  then show ?case by simp
next
  case (2 c)
  then show ?case by (cases ys) auto
next
  case (3 c d cs)
  then show ?case by auto
qed

lemma strip_chars_tail:
  "dropWhile p s = strip_chars p s @ rev (takeWhile p (rev (dropWhile p s)))"
proof -
  let ?t = "dropWhile p s"
  have "rev (takeWhile p (rev ?t) @ dropWhile p (rev ?t)) = rev (rev ?t)"
    by (simp only: takeWhile_dropWhile_id)
  then have "rev (dropWhile p (rev ?t)) @ rev (takeWhile p (rev ?t)) = ?t"
    by (simp only: rev_append rev_rev_ident)
  then show ?thesis unfolding strip_chars_def by (rule sym)
qed

lemma strip_chars_decomp: "\<exists>a b. s = a @ strip_chars p s @ b"
proof -
  have "s = takeWhile p s @ dropWhile p s" by simp
  then show ?thesis using strip_chars_tail [of p s] by metis
qed

lemma strip_chars_ends:
  "strip_chars p s = [] \<or> (\<not> p (hd (strip_chars p s)) \<and> \<not> p (last (strip_chars p s)))"
proof (cases "strip_chars p s = []")
  case True
  then show ?thesis by simp
next
  case False
  let ?t = "dropWhile p s"
  let ?u = "dropWhile p (rev ?t)"
  have u: "?u \<noteq> []" using False by (simp add: strip_chars_def)
  have l: "\<not> p (hd ?u)" using u by (rule hd_dropWhile)
  have "last (strip_chars p s) = hd ?u" using u by (simp add: strip_chars_def last_rev)
  with l have a: "\<not> p (last (strip_chars p s))" by simp
  have t: "?t \<noteq> []"
  proof
    assume "?t = []"
    then have "?u = []" by (simp only: rev.simps dropWhile.simps)
    with u show False ..
  qed
  have "hd ?t = hd (strip_chars p s @ rev (takeWhile p (rev ?t)))"
    using strip_chars_tail [of p s] by simp
  then have "hd ?t = hd (strip_chars p s)" using False by simp
  moreover have "\<not> p (hd ?t)" using t by (rule hd_dropWhile)
  ultimately show ?thesis using a by simp
qed

lemma dropWhile_none: "\<forall>c\<in>set xs. \<not> p c \<Longrightarrow> dropWhile p xs = xs"
  by (cases xs) auto

lemma strip_chars_id: "\<forall>c\<in>set s. \<not> p c \<Longrightarrow> strip_chars p s = s"
  by (simp add: strip_chars_def dropWhile_none)

lemma isdecimal_not_space: "isdecimal c \<Longrightarrow> \<not> isspace c"
  by (auto simp: isdecimal_def isspace_def ascii_digit_def Nd_ranges_def split: if_splits)

lemma ascii_upper_not_space: "ascii_upper c \<Longrightarrow> \<not> isspace c"
  by (auto simp: ascii_upper_def isspace_def)

lemma name_ok_clean: "name_ok (strip_chars sep_char (sub SPACES_REGEX [32] x))"
proof -
  obtain a b where "sub SPACES_REGEX [32] x = a @ strip_chars sep_char (sub SPACES_REGEX [32] x) @ b"
    using strip_chars_decomp by blast
  then have "spaced (a @ strip_chars sep_char (sub SPACES_REGEX [32] x) @ b)"
    using sub_spaces_spaced [of x] by simp
  then have "spaced (strip_chars sep_char (sub SPACES_REGEX [32] x))"
    using spaced_append by blast
  then show ?thesis using strip_chars_ends [of sep_char] by (auto simp: name_ok_def)
qed

lemma triplet_shape_groups:
  assumes "triplet_shape s s' g"
  shows "\<exists>co ve na. g ''company'' = Some co \<and> g ''vendor'' = Some ve \<and> g ''name'' = Some na \<and>
           company_code_ok co \<and> vendor_number_ok ve"
  using assms unfolding triplet_shape_def company_code_ok_def vendor_number_ok_def
  by (auto simp: list_all_iff)

lemma company_code_no_space: "company_code_ok c \<Longrightarrow> \<forall>x\<in>set c. \<not> isspace x"
proof
  fix x assume c: "company_code_ok c" and x: "x \<in> set c"
  have "c = take 2 c @ drop 2 c" by simp
  then have "set c = set (take 2 c) \<union> set (drop 2 c)" by (metis set_append)
  with x have "x \<in> set (take 2 c) \<or> x \<in> set (drop 2 c)" by simp
  then show "\<not> isspace x"
    using c by (auto simp: company_code_ok_def list_all_iff isdecimal_not_space ascii_upper_not_space)
qed

section \<open>Evaluation on concrete texts\<close>

lemmas text_defs =
  str_of_def or_empty_def isspace_def isdecimal_def ascii_digit_def ascii_upper_def
  strip_def strip_chars_def sep_char_def

lemmas regex_defs =
  finditer_def sub_def match_prefix_def within_def consumed_def group_def lit_def lit_i_def
  TRIPLET_REGEX_def SPACES_REGEX_def BR_REGEX_def P_CLOSE_REGEX_def P_OPEN_REGEX_def
  TAG_REGEX_def BLANKS_REGEX_def

lemmas extract_defs =
  extract_triplets_from_text_def row_of_match_def html_to_text_def text_defs regex_defs

text \<open>
  C6. The two-line text of the specification's example yields exactly its two records,
  \<^verbatim>\<open>("SG77", "1000338436", "SPEEDYLINK LOGISTICS SDN BHD")\<close> and
  \<^verbatim>\<open>("SG80", "1000445566", "ACME TRADING PTE LTD")\<close>, in that order.
\<close>

theorem extract_two_lines:
  "extract_triplets_from_text
     (Some (str_of ''SG77 1000338436 SPEEDYLINK LOGISTICS SDN BHD'' @ [10] @
            str_of ''SG80 1000445566 ACME TRADING PTE LTD''))
   = [(str_of ''SG77'', str_of ''1000338436'', str_of ''SPEEDYLINK LOGISTICS SDN BHD''),
      (str_of ''SG80'', str_of ''1000445566'', str_of ''ACME TRADING PTE LTD'')]"
  by (simp add: extract_defs)

section \<open>Shape of the records\<close>

lemma strip_chars_decomp_sep:
  "\<exists>a b. s = a @ strip_chars p s @ b \<and> list_all p a \<and> list_all p b"
proof -
  let ?a = "takeWhile p s"
  let ?b = "rev (takeWhile p (rev (dropWhile p s)))"
  have "s = ?a @ dropWhile p s" by simp
  then have "s = ?a @ strip_chars p s @ ?b" using strip_chars_tail [of p s] by simp
  moreover have "list_all p ?a" by (auto simp: list_all_iff dest: set_takeWhileD)
  moreover have "list_all p ?b" by (auto simp: list_all_iff dest: set_takeWhileD)
  ultimately show ?thesis by blast
qed

text \<open>
  C2, as the code has it. Every record that \<open>extract_triplets_from_text\<close> returns has a
  company code of two upper-case ASCII letters followed by two decimal digits (of the
  Unicode category Nd, which \<^verbatim>\<open>\d\<close> matches, not ASCII digits only), a vendor number
  of 3 to 40 characters none of which is white space, and a name in which every run of
  white space is one space and which neither starts nor ends with a space, \<^verbatim>\<open>-\<close> or
  \<^verbatim>\<open>|\<close>. The name is the matched name with its white space collapsed, less a run of
  such characters at either end: inside the name they stay.
\<close>

theorem extract_record_shape:
  "(\<forall>(company, vendor, name) \<in> set (extract_triplets_from_text txt).
      company_code_ok company \<and> vendor_number_ok vendor \<and> name_ok name)
   \<and> (\<forall>m \<in> set (finditer TRIPLET_REGEX (or_empty txt)).
        \<exists>a b. sub SPACES_REGEX [32] (strip (group m ''name'')) = a @ snd (snd (row_of_match m)) @ b
               \<and> list_all sep_char a \<and> list_all sep_char b)"
proof -
  { fix m assume "m \<in> set (finditer TRIPLET_REGEX (or_empty txt))"
    from triplet_shape_groups [OF finditer_triplet(1) [OF this]]
    obtain co ve na where g: "m_groups m ''company'' = Some co" "m_groups m ''vendor'' = Some ve"
      "m_groups m ''name'' = Some na" and ok: "company_code_ok co" "vendor_number_ok ve" by blast
    have "strip co = co" using company_code_no_space [OF ok(1)] by (simp add: strip_def strip_chars_id)
    moreover have "strip ve = ve" using ok(2)
      by (simp add: strip_def strip_chars_id vendor_number_ok_def list_all_iff)
    ultimately have "row_of_match m = (co, ve, strip_chars sep_char (sub SPACES_REGEX [32] (strip na)))"
      using g by (simp add: row_of_match_def group_def)
    then have "case row_of_match m of (company, vendor, name) \<Rightarrow>
      company_code_ok company \<and> vendor_number_ok vendor \<and> name_ok name"
      using ok name_ok_clean by simp }
  then have 1: "\<forall>(company, vendor, name) \<in> set (extract_triplets_from_text txt).
      company_code_ok company \<and> vendor_number_ok vendor \<and> name_ok name"
    by (auto simp: extract_triplets_from_text_def)
  have 2: "\<exists>a b. sub SPACES_REGEX [32] (strip (group m ''name'')) = a @ snd (snd (row_of_match m)) @ b
               \<and> list_all sep_char a \<and> list_all sep_char b" for m
  proof -
    have "snd (snd (row_of_match m))
        = strip_chars sep_char (sub SPACES_REGEX [32] (strip (group m ''name'')))"
      by (simp add: row_of_match_def Let_def)
    then show ?thesis
      using strip_chars_decomp_sep [of "sub SPACES_REGEX [32] (strip (group m ''name''))" sep_char]
      by simp
  qed
  from 1 2 show ?thesis by blast
qed

lemma not_space_not_break: "\<not> isspace c \<Longrightarrow> c \<noteq> 13 \<and> c \<noteq> 10"
proof -
  have "isspace 13" "isspace 10" by (simp_all add: isspace_def)
  then show "\<not> isspace c \<Longrightarrow> c \<noteq> 13 \<and> c \<noteq> 10" by auto
qed

lemma no_space_one_line: "\<forall>c\<in>set s. \<not> isspace c \<Longrightarrow> one_line s"
  unfolding one_line_def list_all_iff using not_space_not_break by blast

text \<open>
  C3, as the code has it. In every match of the pattern the company code, the vendor
  number and the name each lie within one line, the name is not empty and ends where
  its line ends; the two separators are non-empty runs of white space, in which line
  breaks may occur.
\<close>

theorem finditer_triplet_lines:
  "\<forall>m \<in> set (finditer TRIPLET_REGEX (or_empty txt)).
     \<exists>ws1 ws2.
        m_whole m = group m ''company'' @ ws1 @ group m ''vendor'' @ ws2 @ group m ''name'' \<and>
        ws1 \<noteq> [] \<and> list_all isspace ws1 \<and> ws2 \<noteq> [] \<and> list_all isspace ws2 \<and>
        one_line (group m ''company'') \<and> one_line (group m ''vendor'') \<and>
        group m ''name'' \<noteq> [] \<and> one_line (group m ''name'') \<and>
        at_line_end (m_rest m)"
proof
  fix m assume "m \<in> set (finditer TRIPLET_REGEX (or_empty txt))"
  from finditer_triplet(1) [OF this]
  obtain co ws1 ve ws2 na where
    w: "m_whole m @ m_rest m = co @ ws1 @ ve @ ws2 @ na @ m_rest m" and
    g: "m_groups m ''company'' = Some co" "m_groups m ''vendor'' = Some ve" "m_groups m ''name'' = Some na" and
    co: "length co = 4" "\<forall>c\<in>set (take 2 co). ascii_upper c" "\<forall>c\<in>set (drop 2 co). isdecimal c" and
    ws: "ws1 \<noteq> []" "\<forall>c\<in>set ws1. isspace c" "ws2 \<noteq> []" "\<forall>c\<in>set ws2. isspace c" and
    ve: "3 \<le> length ve" "length ve \<le> 40" "\<forall>c\<in>set ve. \<not> isspace c" and
    na: "na \<noteq> []" "\<forall>c\<in>set na. c \<noteq> 13 \<and> c \<noteq> 10" and
    e: "at_line_end (m_rest m)"
    unfolding triplet_shape_def by (elim exE conjE) (rule that)
  from w have whole: "m_whole m = co @ ws1 @ ve @ ws2 @ na" by simp
  have "company_code_ok co" using co by (simp add: company_code_ok_def list_all_iff)
  from company_code_no_space [OF this] have "one_line co" by (rule no_space_one_line)
  moreover have "one_line ve" using ve(3) by (rule no_space_one_line)
  moreover have "one_line na" using na(2) by (simp add: one_line_def list_all_iff)
  ultimately show "\<exists>ws1 ws2.
        m_whole m = group m ''company'' @ ws1 @ group m ''vendor'' @ ws2 @ group m ''name'' \<and>
        ws1 \<noteq> [] \<and> list_all isspace ws1 \<and> ws2 \<noteq> [] \<and> list_all isspace ws2 \<and>
        one_line (group m ''company'') \<and> one_line (group m ''vendor'') \<and>
        group m ''name'' \<noteq> [] \<and> one_line (group m ''name'') \<and>
        at_line_end (m_rest m)"
    using whole g ws na(1) e
    by (intro exI [of _ ws1] exI [of _ ws2]) (simp add: group_def list_all_iff)
qed

text \<open>
  The shape theorem at a text with digits of another script, a tab in the name and
  separators at both ends of it.
\<close>

theorem extract_record_shape_witness:
  "company_code_ok (str_of ''SG'' @ [1633, 1634]) \<and> vendor_number_ok (str_of ''1234'') \<and>
   name_ok (str_of ''A|B - C'') \<and>
   (\<exists>a b. str_of ''- A|B - C |-'' = a @ str_of ''A|B - C'' @ b \<and> list_all sep_char a \<and> list_all sep_char b)"
proof -
  let ?t = "Some (str_of ''SG'' @ [1633, 1634] @ str_of '' 1234 - A|B'' @ [9, 32] @ str_of ''-  C |-'')"
  define n where "n = str_of ''- A|B'' @ [9, 32] @ str_of ''-  C |-''"
  define m where "m = \<lparr>m_whole = str_of ''SG'' @ [1633, 1634] @ str_of '' 1234 '' @ n, m_rest = [],
      m_groups = [''company'' \<mapsto> str_of ''SG'' @ [1633, 1634], ''vendor'' \<mapsto> str_of ''1234'',
                  ''name'' \<mapsto> n]\<rparr>"
  have f: "finditer TRIPLET_REGEX (or_empty ?t) = [m]"
    by (simp add: m_def n_def text_defs regex_defs Nd_ranges_def)
  have r: "row_of_match m = (str_of ''SG'' @ [1633, 1634], str_of ''1234'', str_of ''A|B - C'')"
    by (simp add: m_def n_def row_of_match_def text_defs regex_defs)
  have e: "extract_triplets_from_text ?t
           = [(str_of ''SG'' @ [1633, 1634], str_of ''1234'', str_of ''A|B - C'')]"
    unfolding extract_triplets_from_text_def f by (simp only: list.map r)
  have g: "group m ''name'' = n"
    by (simp add: m_def group_def)
  have s: "sub SPACES_REGEX [32] (strip n) = str_of ''- A|B - C |-''"
    by (simp add: n_def text_defs regex_defs)
  show ?thesis
    using extract_record_shape [of ?t]
    unfolding e f by (simp add: r g s)
qed

text \<open>
  C2 as the specification words it fails: the Arabic-Indic digits U+0661 and U+0662 match
  \<^verbatim>\<open>\d\<close>, and the company code returned holds no ASCII digit.
\<close>

theorem extract_unicode_digits:
  "extract_triplets_from_text (Some (str_of ''SG'' @ [1633, 1634] @ str_of '' 1234 ACME''))
     = [(str_of ''SG'' @ [1633, 1634], str_of ''1234'', str_of ''ACME'')]
   \<and> \<not> company_code_ascii (str_of ''SG'' @ [1633, 1634])"
  by (simp add: extract_defs Nd_ranges_def company_code_ascii_def)

text \<open>
  C3 as the specification words it fails: the white space between the fields may be a
  line feed, and one record is then matched across three lines.
\<close>

theorem extract_across_lines:
  "extract_triplets_from_text (Some (str_of ''SG12'' @ [10] @ str_of ''1234'' @ [10] @ str_of ''ACME''))
     = [(str_of ''SG12'', str_of ''1234'', str_of ''ACME'')]
   \<and> map m_whole (finditer TRIPLET_REGEX (str_of ''SG12'' @ [10] @ str_of ''1234'' @ [10] @ str_of ''ACME''))
     = [str_of ''SG12'' @ [10] @ str_of ''1234'' @ [10] @ str_of ''ACME'']
   \<and> \<not> one_line (str_of ''SG12'' @ [10] @ str_of ''1234'' @ [10] @ str_of ''ACME'')"
  by (simp add: extract_defs one_line_def)

text \<open>
  The line theorem at a text whose one record spreads over three lines and is followed
  by a carriage return and a line feed.
\<close>

theorem finditer_triplet_lines_witness:
  "\<exists>ws1 ws2.
      str_of ''SG12'' @ [10] @ str_of ''1234'' @ [32, 10] @ str_of ''ACME CO''
        = str_of ''SG12'' @ ws1 @ str_of ''1234'' @ ws2 @ str_of ''ACME CO'' \<and>
      ws1 \<noteq> [] \<and> list_all isspace ws1 \<and> ws2 \<noteq> [] \<and> list_all isspace ws2 \<and>
      one_line (str_of ''SG12'') \<and> one_line (str_of ''1234'') \<and>
      str_of ''ACME CO'' \<noteq> [] \<and> one_line (str_of ''ACME CO'') \<and>
      at_line_end ([13, 10] @ str_of ''next'')"
proof -
  have e: "finditer TRIPLET_REGEX
             (or_empty (Some (str_of ''SG12'' @ [10] @ str_of ''1234'' @ [32, 10] @ str_of ''ACME CO''
                              @ [13, 10] @ str_of ''next'')))
           = [\<lparr>m_whole = str_of ''SG12'' @ [10] @ str_of ''1234'' @ [32, 10] @ str_of ''ACME CO'',
               m_rest = [13, 10] @ str_of ''next'',
               m_groups = [''company'' \<mapsto> str_of ''SG12'', ''vendor'' \<mapsto> str_of ''1234'',
                           ''name'' \<mapsto> str_of ''ACME CO'']\<rparr>]"
    by (simp add: text_defs regex_defs)
  show ?thesis
    using finditer_triplet_lines
      [of "Some (str_of ''SG12'' @ [10] @ str_of ''1234'' @ [32, 10] @ str_of ''ACME CO''
                 @ [13, 10] @ str_of ''next'')"]
    unfolding e by (simp add: group_def)
qed

section \<open>The result table: first occurrences\<close>

lemma select_Cons: "select (b # bs) (x # xs) = (if b then x # select bs xs else select bs xs)"
  by (simp add: select_def)

lemma select_Nil: "select [] xs = []"
  by (simp add: select_def)

lemma kept_set: "set (select (map Not (duplicated seen rows)) rows) = set rows - set seen"
  by (induction rows arbitrary: seen) (auto simp: select_Cons select_Nil)

lemma kept_distinct: "distinct (select (map Not (duplicated seen rows)) rows)"
  by (induction rows arbitrary: seen) (auto simp: select_Cons select_Nil kept_set)



lemma kept_id:
  "distinct rows \<Longrightarrow> set rows \<inter> set seen = {} \<Longrightarrow>
     select (map Not (duplicated seen rows)) rows = rows"
  by (induction rows arbitrary: seen) (auto simp: select_Cons select_Nil)

lemma length_select_index:
  "length (select (map Not (duplicated seen rows)) ixs) \<le> length ixs"
  by (simp add: select_def) (metis length_filter_le length_zip min.cobounded2 le_trans length_map)

lemma build_dataframe_eq:
  "build_dataframe rows =
     \<lparr>df_columns = [''company_code'', ''vendor_number'', ''name''],
      df_index = [0..<length (select (map Not (duplicated [] rows)) rows)],
      df_data = select (map Not (duplicated [] rows)) rows\<rparr>"
  by (cases rows)
     (simp_all add: build_dataframe_def DataFrame_def df_empty_def drop_duplicates_def
        reset_index_drop_def select_Nil Let_def)


text \<open>
  C8. Deduplication is idempotent: \<open>build_dataframe\<close> applied to the rows of its own
  result returns that result.
\<close>

theorem build_dataframe_idempotent:
  "build_dataframe (df_data (build_dataframe rows)) = build_dataframe rows"
proof -
  let ?k = "select (map Not (duplicated [] rows)) rows"
  have "select (map Not (duplicated [] ?k)) ?k = ?k"
    by (rule kept_id) (simp_all add: kept_distinct)
  then show ?thesis by (simp add: build_dataframe_eq)
qed

lemma build_dataframe_example:
  "build_dataframe [([1], [2], [3]), ([4], [5], [6]), ([1], [2], [3])] =
     \<lparr>df_columns = [''company_code'', ''vendor_number'', ''name''], df_index = [0, 1],
      df_data = [([1], [2], [3]), ([4], [5], [6])]\<rparr>"
  by (simp add: build_dataframe_def DataFrame_def df_empty_def drop_duplicates_def
        reset_index_drop_def select_def Let_def)

lemmas classifier_defs =
  subject_matches_def DEFAULT_SUBJECT_KEYWORDS_def DEFAULT_SUBJECT_PHRASES_def
  lower_def or_empty_def str_of_def ascii_lower_def ascii_upper_def

section \<open>The normalizer on the example markup\<close>

text \<open>
  C4 as the specification words it fails: the normalizer's result on the example is not
  the two lines joined by a single line feed.
\<close>

theorem html_example_one_newline:
  "html_to_text (Some (str_of ''<p>SG12 999AAA ABC Co</p><br>SG13 1000 XYZ Inc''))
     \<noteq> str_of ''SG12 999AAA ABC Co'' @ [10] @ str_of ''SG13 1000 XYZ Inc''"
  by (simp add: extract_defs)

text \<open>
  C4, as the code has it. On \<^verbatim>\<open><p>SG12 999AAA ABC Co</p><br>SG13 1000 XYZ Inc\<close> the
  normalizer turns \<^verbatim>\<open></p>\<close> and \<^verbatim>\<open><br>\<close> into one line feed each, so the two lines
  are joined by two line feeds; the extraction on that text yields exactly two records.
\<close>

theorem html_example_two_newlines:
  "html_to_text (Some (str_of ''<p>SG12 999AAA ABC Co</p><br>SG13 1000 XYZ Inc''))
     = str_of ''SG12 999AAA ABC Co'' @ [10, 10] @ str_of ''SG13 1000 XYZ Inc''
   \<and> extract_triplets_from_text
       (Some (html_to_text (Some (str_of ''<p>SG12 999AAA ABC Co</p><br>SG13 1000 XYZ Inc''))))
     = [(str_of ''SG12'', str_of ''999AAA'', str_of ''ABC Co''),
        (str_of ''SG13'', str_of ''1000'', str_of ''XYZ Inc'')]"
  by (simp add: extract_defs)

section \<open>The subject classifier\<close>

lemma phrase_loop_ex: "phrase_loop ul s phs = list_ex (\<lambda>ph. contains s (lower ul ph)) phs"
  by (induction phs) auto

lemma subject_matches_spec_distinct:
  "distinct keywords \<Longrightarrow>
     subject_matches ul subject keywords phrases t = classifier_spec ul subject keywords phrases t"
proof -
  assume d: "distinct keywords"
  have "card (set (filter P keywords)) = length (filter P keywords)" for P
    using d by (simp only: distinct_card distinct_filter)
  then have c: "card {x \<in> set keywords. P x} = length (filter P keywords)" for P
    by (simp only: set_filter)
  show ?thesis
    by (auto simp: subject_matches_def classifier_spec_def phrase_loop_ex Let_def c)
qed

lemma subject_matches_examples:
  "subject_matches ul (Some (str_of ''FW: Esker Vendor Update - Batch 12''))
     DEFAULT_SUBJECT_KEYWORDS DEFAULT_SUBJECT_PHRASES 1"
  "\<not> subject_matches ul (Some (str_of ''Random Newsletter''))
     DEFAULT_SUBJECT_KEYWORDS DEFAULT_SUBJECT_PHRASES 1"
  by (simp_all add: classifier_defs)

text \<open>
  C1. The classifier is to count the distinct keywords found in the subject, as the
  comment in \<open>subject_matches\<close> says too. The code counts the entries of the keyword list:
  with the keyword \<^verbatim>\<open>esker\<close> listed twice, no phrase and threshold 2, the subject
  \<^verbatim>\<open>esker\<close> is accepted, although one distinct keyword occurs in it.
\<close>

theorem subject_matches_counts_duplicates:
  "subject_matches ul (Some (str_of ''esker'')) [str_of ''esker'', str_of ''esker''] [] 2
   \<and> \<not> classifier_spec ul (Some (str_of ''esker'')) [str_of ''esker'', str_of ''esker''] [] 2"
  by (simp add: classifier_defs classifier_spec_def)

lemma subject_matches_null_default:
  "subject_matches ul None DEFAULT_SUBJECT_KEYWORDS DEFAULT_SUBJECT_PHRASES t \<longleftrightarrow> t \<le> 0"
  by (simp add: classifier_defs)

text \<open>
  C7. A missing subject is classified as the empty subject is, for every configuration.
  With the default keywords and phrases it is accepted exactly when the threshold is
  at most 0, that is, for a threshold in the configuration's range (an integer that is
  not negative), exactly when the threshold is 0.
\<close>

theorem subject_matches_null:
  "subject_matches ul None keywords phrases t = subject_matches ul (Some []) keywords phrases t
   \<and> (subject_matches ul None DEFAULT_SUBJECT_KEYWORDS DEFAULT_SUBJECT_PHRASES t \<longleftrightarrow> t \<le> 0)
   \<and> (0 \<le> t \<longrightarrow>
        (subject_matches ul None DEFAULT_SUBJECT_KEYWORDS DEFAULT_SUBJECT_PHRASES t \<longleftrightarrow> t = 0) \<and>
        (subject_matches ul (Some []) DEFAULT_SUBJECT_KEYWORDS DEFAULT_SUBJECT_PHRASES t \<longleftrightarrow> t = 0))"
proof -
  have a: "subject_matches ul None ks ps t = subject_matches ul (Some []) ks ps t" for ks ps
    by (simp add: subject_matches_def or_empty_def)
  show ?thesis using a subject_matches_null_default [of ul t] by auto
qed

text \<open>The thresholds 0 and 1, with the identity for the case tables.\<close>

theorem subject_matches_null_witness:
  "(0::int) \<le> 0 \<and> subject_matches (\<lambda>s. s) None DEFAULT_SUBJECT_KEYWORDS DEFAULT_SUBJECT_PHRASES 0
   \<and> (0::int) \<le> 1 \<and> \<not> subject_matches (\<lambda>s. s) (Some []) DEFAULT_SUBJECT_KEYWORDS DEFAULT_SUBJECT_PHRASES 1"
  using subject_matches_null [of "\<lambda>s. s" DEFAULT_SUBJECT_KEYWORDS DEFAULT_SUBJECT_PHRASES 0]
        subject_matches_null [of "\<lambda>s. s" DEFAULT_SUBJECT_KEYWORDS DEFAULT_SUBJECT_PHRASES 1]
  by simp

section \<open>The module's state\<close>

text \<open>
  C9. Two calls of \<open>extract_triplets_from_text\<close> on the same text return the same
  records: the second of two calls in a row returns what the first returned, the
  result is the same in every state of the module, and a call leaves the state as it
  was.
\<close>

theorem extract_deterministic:
  "fst (call_extract_triplets_from_text (snd (call_extract_triplets_from_text st txt)) txt)
     = fst (call_extract_triplets_from_text st txt)
   \<and> fst (call_extract_triplets_from_text st' txt) = fst (call_extract_triplets_from_text st txt)
   \<and> snd (call_extract_triplets_from_text st txt) = st"
  by (simp add: call_extract_triplets_from_text_def)

lemma defaults_intact_init: "defaults_intact module_init"
  by (simp add: defaults_intact_def module_init_def)

lemma defaults_intact_rebind:
  "defaults_intact st \<Longrightarrow> defaults_intact (rebind_keywords xs st)"
  "defaults_intact st \<Longrightarrow> defaults_intact (rebind_phrases xs st)"
  by (auto simp: defaults_intact_def rebind_keywords_def rebind_phrases_def)

lemma snd_entry:
  "snd (get_esker_vendor_updates_df ul st hits kws phs inbox)
     = rebind_phrases phs (rebind_keywords kws st)"
  by (simp add: get_esker_vendor_updates_df_def Let_def)

lemma defaults_intact_entry:
  "defaults_intact st \<Longrightarrow> defaults_intact (snd (get_esker_vendor_updates_df ul st hits kws phs inbox))"
  by (simp add: snd_entry defaults_intact_rebind)

lemma defaults_intact_after_calls: "defaults_intact (after_calls ul cs)"
  unfolding after_calls_def
  by (induction cs rule: rev_induct) (simp_all add: defaults_intact_init defaults_intact_entry)

lemma call_subject_matches_defaults:
  "defaults_intact st \<Longrightarrow>
     call_subject_matches ul st subject None None (Some hits)
       = subject_matches ul subject DEFAULT_SUBJECT_KEYWORDS DEFAULT_SUBJECT_PHRASES hits"
  by (simp add: call_subject_matches_def defaults_intact_def)

lemma find_matching_defaults:
  "defaults_intact st \<Longrightarrow>
     find_matching_emails_inbox ul st inbox hits
       = filter (\<lambda>msg. subject_matches ul (Some (or_empty (Subject msg)))
                   DEFAULT_SUBJECT_KEYWORDS DEFAULT_SUBJECT_PHRASES hits) inbox"
  by (simp add: find_matching_emails_inbox_def call_subject_matches_defaults)

lemma fst_entry:
  "defaults_intact st \<Longrightarrow>
     fst (get_esker_vendor_updates_df ul st hits kws phs inbox)
       = build_dataframe (concat (map extract_rows_from_email
           (filter (\<lambda>msg. subject_matches ul (Some (or_empty (Subject msg)))
                      DEFAULT_SUBJECT_KEYWORDS DEFAULT_SUBJECT_PHRASES hits) inbox)))"
  by (simp add: get_esker_vendor_updates_df_def Let_def find_matching_defaults defaults_intact_rebind)

text \<open>
  C10. After any sequence of calls of the entry point, a call of it with the keywords
  and phrases \<open>kws1\<close>, \<open>phs1\<close> and a call with \<open>kws2\<close>, \<open>phs2\<close> classify every subject the
  same way, namely with the lists to which the defaults of \<open>subject_matches\<close> were bound
  when it was defined, and return the same table.
\<close>

theorem entry_point_configuration_ignored:
  "call_subject_matches ul
      (snd (get_esker_vendor_updates_df ul (after_calls ul cs) hits kws1 phs1 inbox))
      subject None None (Some hits)
     = call_subject_matches ul
      (snd (get_esker_vendor_updates_df ul (after_calls ul cs) hits kws2 phs2 inbox))
      subject None None (Some hits)
   \<and> call_subject_matches ul
      (snd (get_esker_vendor_updates_df ul (after_calls ul cs) hits kws1 phs1 inbox))
      subject None None (Some hits)
     = subject_matches ul subject DEFAULT_SUBJECT_KEYWORDS DEFAULT_SUBJECT_PHRASES hits
   \<and> fst (get_esker_vendor_updates_df ul (after_calls ul cs) hits kws1 phs1 inbox)
     = fst (get_esker_vendor_updates_df ul (after_calls ul cs) hits kws2 phs2 inbox)"
  by (simp add: call_subject_matches_defaults defaults_intact_entry defaults_intact_after_calls fst_entry)

end
